theory Spec2Isabelle
  imports Complex_Main
begin

section \<open>The instant-replay recorder of VideoRecorder.vue\<close>

text \<open>
  The component keeps its whole state in Vue refs declared at the top of the script
  block; every handler reads and writes them. The embedding below is of the version
  of the component with the A/B loop and the progress bar (the one that declares
  \<^verbatim>\<open>FRAME_RATE\<close>): the refs become one record, each handler becomes a function
  from the record to the updated record, and a handler that can throw returns a sum.

  Conventions of the embedding:
  \<^item> a JavaScript number holding a frame index is an \<^typ>\<open>int\<close>; a speed, a delay
    and the progress shown are \<^typ>\<open>real\<close>s in exact arithmetic; the seek, whose
    \<^verbatim>\<open>Math.floor\<close> makes rounding visible in the cursor, rounds its division and its
    multiplication to doubles (\<open>roundDouble\<close> below);
  \<^item> a ref of type \<^verbatim>\<open>number | null\<close> is an option, and the test \<^verbatim>\<open>!x.value\<close> on it is
    JavaScript truthiness: \<^verbatim>\<open>null\<close> and \<^verbatim>\<open>0\<close> are both falsy;
  \<^item> the two frame arrays are objects: a ref holds the address of an array in a store,
    \<^verbatim>\<open>push\<close> and \<^verbatim>\<open>shift\<close> change the store at that address, and the spread
    \<^verbatim>\<open>[...xs]\<close> allocates a new address;
  \<^item> the DOM refs are flags saying whether the ref is non-null; the canvas is the
    frame last drawn on it; pending \<^verbatim>\<open>setTimeout\<close> timers are a map from the
    timer's handle to its delay;
  \<^item> \<^verbatim>\<open>putImageData\<close> throws a TypeError when its first argument is not an
    ImageData, which is what reading an array out of range (\<^verbatim>\<open>undefined\<close>) gives it;
    a handler that throws returns the error alone, and a run of events stops there.

  Left out: the full-screen toggle, which touches no state the other handlers read, and
  the clean-up at unmount.
\<close>

subsection \<open>State\<close>

datatype error = TypeError

text \<open>
  The texts \<^verbatim>\<open>statusText\<close> takes, by the place that sets them: the initial
  \<^verbatim>\<open>'Record'\<close>, the one \<^verbatim>\<open>captureFrame\<close> sets, the one \<^verbatim>\<open>startPlayback\<close> sets, and
  the three of \<^verbatim>\<open>toggleABPoints\<close> (A set, loop running, and \<^verbatim>\<open>'Recalling'\<close>).
\<close>

datatype status =
  StatusRecord | StatusRecording | StatusReplaying | StatusSetA | StatusABLoop | StatusRecalling

record 'f engine =
  recording :: bool
  playing :: bool
  paused :: bool
  playbackSpeed :: real
  abPointA :: "int option"
  abPointB :: "int option"
  abPointMode :: bool
  statusText :: status
  arrays :: "nat \<Rightarrow> 'f list"
  nextAddr :: nat
  frameBuffer :: nat
  bufferSize :: nat
  currentPlaybackIndex :: int
  playbackFrames :: nat
  playbackTimeoutId :: "nat option"
  timers :: "nat \<rightharpoonup> real"
  nextTimerId :: nat
  hasLiveVideo :: bool
  hasCanvas :: bool
  hasContext :: bool
  canvasImage :: "'f option"
  progress :: "real option"
  dragging :: bool

definition FRAME_RATE :: nat where
  "FRAME_RATE = 60"

text \<open>The contents of the two arrays the refs point to.\<close>

definition bufferContents :: "'f engine \<Rightarrow> 'f list" where
  "bufferContents s = arrays s (frameBuffer s)"

definition playbackContents :: "'f engine \<Rightarrow> 'f list" where
  "playbackContents s = arrays s (playbackFrames s)"

text \<open>
  The state the script block sets up: two distinct empty arrays, recording on. The
  template refs and the 2D context are filled in by a successful \<^verbatim>\<open>onMounted\<close>.
\<close>

definition initialState :: "'f engine" where
  "initialState =
     \<lparr> recording = True, playing = False, paused = False, playbackSpeed = 1 / 4,
       abPointA = None, abPointB = None, abPointMode = False, statusText = StatusRecord,
       arrays = (\<lambda>_. []), nextAddr = 2, frameBuffer = 0, bufferSize = 5 * FRAME_RATE,
       currentPlaybackIndex = 0, playbackFrames = 1, playbackTimeoutId = None,
       timers = Map.empty, nextTimerId = 1, hasLiveVideo = False, hasCanvas = False,
       hasContext = False, canvasImage = None, progress = Some (- 1), dragging = False \<rparr>"

definition mountedState :: "'f engine" where
  "mountedState = initialState \<lparr> hasLiveVideo := True, hasCanvas := True, hasContext := True \<rparr>"

subsection \<open>JavaScript primitives\<close>

text \<open>Truthiness of a \<^verbatim>\<open>number | null\<close>.\<close>

definition truthy :: "int option \<Rightarrow> bool" where
  "truthy x = (case x of None \<Rightarrow> False | Some n \<Rightarrow> n \<noteq> 0)"

definition truthyId :: "nat option \<Rightarrow> bool" where
  "truthyId x = (case x of None \<Rightarrow> False | Some n \<Rightarrow> n \<noteq> 0)"

text \<open>
  \<^verbatim>\<open>index / length\<close>: a finite quotient, or \<^verbatim>\<open>NaN\<close>/\<^verbatim>\<open>Infinity\<close> (here \<open>None\<close>) when
  the array is empty.
\<close>

definition jsdiv :: "int \<Rightarrow> nat \<Rightarrow> real option" where
  "jsdiv i n = (if n = 0 then None else Some (real_of_int i / real n))"

text \<open>
  A result of double arithmetic: the exact result rounded to the nearest number with a
  significand of 53 bits, a tie going to the even significand. The exponent is taken as
  unbounded: the click positions and products rounded here are 0 or lie between
  1 / innerWidth and the length of the playback sequence, far inside the range of
  doubles. At a concrete input the rounding is computed through
  \<open>roundDouble_between\<close> below, from the two powers of 2 around the input.
\<close>

definition roundHalfEven :: "real \<Rightarrow> int" where
  "roundHalfEven m =
     (let f = \<lfloor>m\<rfloor> in
      if m - of_int f < 1 / 2 then f
      else if 1 / 2 < m - of_int f then f + 1
      else if even f then f else f + 1)"

definition roundDouble :: "real \<Rightarrow> real" where
  "roundDouble x =
     (if x = 0 then 0
      else
        let e = \<lfloor>log 2 \<bar>x\<bar>\<rfloor>; ulp = 2 powr (of_int e - 52)
        in sgn x * of_int (roundHalfEven (\<bar>x\<bar> / ulp)) * ulp)"

text \<open>\<^verbatim>\<open>setTimeout(playNextFrame, delay)\<close>, its handle stored in \<^verbatim>\<open>playbackTimeoutId\<close>.\<close>

definition setTimeout :: "real \<Rightarrow> 'f engine \<Rightarrow> 'f engine" where
  "setTimeout delay s =
     s \<lparr> timers := (timers s)(nextTimerId s \<mapsto> delay),
         playbackTimeoutId := Some (nextTimerId s),
         nextTimerId := Suc (nextTimerId s) \<rparr>"

text \<open>\<^verbatim>\<open>if (playbackTimeoutId.value) clearTimeout(playbackTimeoutId.value)\<close>.\<close>

definition clearPending :: "'f engine \<Rightarrow> 'f engine" where
  "clearPending s =
     (case playbackTimeoutId s of
        None \<Rightarrow> s
      | Some t \<Rightarrow> if t \<noteq> 0 then s \<lparr> timers := (timers s)(t := None) \<rparr> else s)"

subsection \<open>Capture\<close>

text \<open>
  \<^verbatim>\<open>frameBuffer.value.push(frameData)\<close> followed by the size check and the
  \<^verbatim>\<open>shift()\<close>: both change the array at the buffer's address in place.
\<close>

definition bufferPush :: "nat \<Rightarrow> 'f \<Rightarrow> 'f list \<Rightarrow> 'f list" where
  "bufferPush cap fr buf =
     (let pushed = buf @ [fr] in if length pushed > cap then tl pushed else pushed)"

definition pushFrame :: "'f \<Rightarrow> 'f engine \<Rightarrow> 'f engine" where
  "pushFrame fr s =
     s \<lparr> arrays := (arrays s)(frameBuffer s := bufferPush (bufferSize s) fr (bufferContents s)) \<rparr>"

text \<open>
  One run of \<^verbatim>\<open>captureFrame\<close>. The argument is the picture the live video shows,
  \<open>None\<close> while the video has no width or height yet. Setting the canvas size clears
  the canvas; with a 2D context the picture is then drawn on it and read back by
  \<^verbatim>\<open>getImageData\<close>, and without one both optional calls give \<^verbatim>\<open>undefined\<close> and
  nothing is pushed. The \<^verbatim>\<open>requestAnimationFrame\<close> that re-arms the capture is left
  to the environment, which hands in one capture event per frame.
\<close>

definition captureFrame :: "'f option \<Rightarrow> 'f engine \<Rightarrow> 'f engine" where
  "captureFrame video s =
     (if \<not> hasCanvas s then s
      else if recording s \<and> \<not> playing s \<and> hasLiveVideo s then
        let s1 = s \<lparr> canvasImage := (if hasContext s then video else None) \<rparr>;
            s2 = (case video of
                    Some fr \<Rightarrow> if hasContext s1 then pushFrame fr s1 else s1
                  | None \<Rightarrow> s1)
        in s2 \<lparr> statusText := StatusRecording \<rparr>
      else s)"

fun captureAll :: "'f list \<Rightarrow> 'f engine \<Rightarrow> 'f engine" where
  "captureAll [] s = s"
| "captureAll (fr # frs) s = captureAll frs (captureFrame (Some fr) s)"

subsection \<open>Playback\<close>

text \<open>
  The delay of \<^verbatim>\<open>playNextFrame\<close>: \<^verbatim>\<open>Math.max(16, 1000 / (FRAME_RATE * playbackSpeed))\<close>.
  The speed is never 0: it starts at 0.25 and only \<^verbatim>\<open>cycleSpeed\<close> changes it, to an
  entry of \<^verbatim>\<open>speeds\<close>.
\<close>

definition frameDelay :: "real \<Rightarrow> real" where
  "frameDelay speed = max 16 (1000 / (real FRAME_RATE * speed))"

text \<open>
  The index \<^verbatim>\<open>playNextFrame\<close> settles on before it reads the frame: inside an
  active loop the two tests against B and A, otherwise the wrap to 0 at the end.
\<close>

definition loopWrap :: "int \<Rightarrow> int \<Rightarrow> int \<Rightarrow> int" where
  "loopWrap a b i = (let j = (if i \<ge> b then a else i) in if j < a then a else j)"

definition wrapIndex :: "'f engine \<Rightarrow> int" where
  "wrapIndex s =
     (if abPointMode s \<and> abPointA s \<noteq> None \<and> abPointB s \<noteq> None then
        loopWrap (the (abPointA s)) (the (abPointB s)) (currentPlaybackIndex s)
      else if currentPlaybackIndex s \<ge> int (length (playbackContents s)) then 0
      else currentPlaybackIndex s)"

definition playNextFrame :: "'f engine \<Rightarrow> error + 'f engine" where
  "playNextFrame s =
     (if \<not> hasCanvas s \<or> \<not> hasContext s \<or> \<not> playing s \<or> paused s then Inr s
      else
        let i = wrapIndex s; frames = playbackContents s in
        if 0 \<le> i \<and> i < int (length frames) then
          Inr (setTimeout (frameDelay (playbackSpeed s))
                 (s \<lparr> currentPlaybackIndex := i + 1,
                      progress := jsdiv i (length frames),
                      canvasImage := Some (frames ! nat i) \<rparr>))
        else Inl TypeError)"

text \<open>
  The guard at the head of \<^verbatim>\<open>playNextFrame\<close>, and the indices that \<open>n\<close> successive
  runs of it read, as the timer it re-arms makes them. A run stopped by the guard arms
  no timer, so the chain ends there; a run that throws gives \<open>None\<close>.
\<close>

definition tickGuard :: "'f engine \<Rightarrow> bool" where
  "tickGuard s = (hasCanvas s \<and> hasContext s \<and> playing s \<and> \<not> paused s)"

fun delivered :: "nat \<Rightarrow> 'f engine \<Rightarrow> int list option" where
  "delivered 0 s = Some []"
| "delivered (Suc n) s =
     (if \<not> tickGuard s then Some []
      else case playNextFrame s of
             Inl e \<Rightarrow> None
           | Inr s' \<Rightarrow> map_option (Cons (wrapIndex s)) (delivered n s'))"

text \<open>
  \<^verbatim>\<open>startPlayback\<close>: the spread copies the buffer into a new array, which becomes
  the playback sequence.
\<close>

definition takeSnapshot :: "'f engine \<Rightarrow> 'f engine" where
  "takeSnapshot s =
     s \<lparr> arrays := (arrays s)(nextAddr s := bufferContents s),
         playbackFrames := nextAddr s,
         nextAddr := Suc (nextAddr s) \<rparr>"

definition startPlayback :: "'f engine \<Rightarrow> error + 'f engine" where
  "startPlayback s =
     (if length (bufferContents s) = 0 then Inr s
      else
        case playNextFrame ((takeSnapshot s) \<lparr> currentPlaybackIndex := 0 \<rparr>) of
          Inl e \<Rightarrow> Inl e
        | Inr s' \<Rightarrow> Inr (s' \<lparr> statusText := StatusReplaying \<rparr>))"

definition toggleMode :: "'f engine \<Rightarrow> error + 'f engine" where
  "toggleMode s =
     (let s1 = s \<lparr> recording := \<not> recording s \<rparr>;
          s2 = s1 \<lparr> playing := \<not> recording s1 \<rparr>;
          s3 = s2 \<lparr> paused := False \<rparr>;
          s4 = (if recording s3 then s3 \<lparr> progress := Some (- 1) \<rparr> else s3)
      in if playing s4 then startPlayback s4
         else if truthyId (playbackTimeoutId s4)
           then Inr ((clearPending s4) \<lparr> playbackTimeoutId := None \<rparr>)
           else Inr s4)"

definition toggleABPoints :: "'f engine \<Rightarrow> 'f engine" where
  "toggleABPoints s =
     (if \<not> truthy (abPointA s) then
        s \<lparr> abPointA := Some (currentPlaybackIndex s), statusText := StatusSetA \<rparr>
      else if \<not> truthy (abPointB s) then
        s \<lparr> abPointB :=
              Some (if the (abPointA s) > currentPlaybackIndex s
                    then int (length (playbackContents s)) - 1
                    else currentPlaybackIndex s),
            abPointMode := True, statusText := StatusABLoop \<rparr>
      else
        s \<lparr> abPointA := None, abPointB := None, abPointMode := False,
            statusText := StatusRecalling \<rparr>)"

definition togglePause :: "'f engine \<Rightarrow> error + 'f engine" where
  "togglePause s =
     (let s1 = s \<lparr> paused := \<not> paused s \<rparr>
      in if \<not> paused s1 \<and> playing s1 then playNextFrame s1 else Inr s1)"

text \<open>
  \<^verbatim>\<open>handleProgressClick\<close>; the argument is the exact quotient of \<^verbatim>\<open>event.clientX\<close>
  by \<^verbatim>\<open>window.innerWidth\<close>, which the handler's division rounds to the double
  \<^verbatim>\<open>clickPosition\<close>; the product with the length is rounded again before the floor.
  The window's width is taken not to be 0.
\<close>

definition handleProgressClick :: "real \<Rightarrow> 'f engine \<Rightarrow> error + 'f engine" where
  "handleProgressClick ratio s =
     (if \<not> playing s \<or> \<not> hasCanvas s then Inr s
      else
        let clickPosition = roundDouble ratio;
            n = length (playbackContents s);
            targetIndex = \<lfloor>roundDouble (clickPosition * real n)\<rfloor>;
            s1 = s \<lparr> currentPlaybackIndex := targetIndex, progress := jsdiv targetIndex n \<rparr>
        in if playing s1 \<and> \<not> paused s1 then playNextFrame (clearPending s1) else Inr s1)"

definition adjustSpeed :: "real \<Rightarrow> 'f engine \<Rightarrow> error + 'f engine" where
  "adjustSpeed speedFactor s =
     (let s1 = s \<lparr> playbackSpeed := speedFactor \<rparr>
      in if playing s1 \<and> \<not> paused s1 then playNextFrame (clearPending s1) else Inr s1)"

definition speeds :: "real list" where
  "speeds = [1 / 10, 1 / 4, 1 / 2, 1, 2]"

text \<open>\<^verbatim>\<open>Array.prototype.indexOf\<close>: the first position of the value, or -1.\<close>

fun indexOfFrom :: "real list \<Rightarrow> real \<Rightarrow> int \<Rightarrow> int" where
  "indexOfFrom [] x k = - 1"
| "indexOfFrom (y # ys) x k = (if y = x then k else indexOfFrom ys x (k + 1))"

definition cycleSpeed :: "'f engine \<Rightarrow> error + 'f engine" where
  "cycleSpeed s =
     (let currentIndex = indexOfFrom speeds (playbackSpeed s) 0;
          nextIndex = (currentIndex + 1) mod int (length speeds);
          s1 = s \<lparr> playbackSpeed := speeds ! nat nextIndex \<rparr>
      in adjustSpeed (playbackSpeed s1) s1)"

text \<open>
  Dragging on the progress bar. A mouse move while dragging is a click at the pointer;
  \<^verbatim>\<open>handleTouchMove\<close> repeats the body of the click handler without its guard on
  \<^verbatim>\<open>playing\<close>. The argument is again the exact quotient of the position by the
  window's width.
\<close>

definition startDrag :: "'f engine \<Rightarrow> 'f engine" where
  "startDrag s = s \<lparr> dragging := True \<rparr>"

definition stopDrag :: "'f engine \<Rightarrow> 'f engine" where
  "stopDrag s = s \<lparr> dragging := False \<rparr>"

definition handleDrag :: "real \<Rightarrow> 'f engine \<Rightarrow> error + 'f engine" where
  "handleDrag ratio s =
     (if dragging s then handleProgressClick ratio s else Inr s)"

definition handleTouchMove :: "real \<Rightarrow> 'f engine \<Rightarrow> error + 'f engine" where
  "handleTouchMove ratio s =
     (if dragging s then
        let clickPosition = roundDouble ratio;
            n = length (playbackContents s);
            targetIndex = \<lfloor>roundDouble (clickPosition * real n)\<rfloor>;
            s1 = s \<lparr> currentPlaybackIndex := targetIndex, progress := jsdiv targetIndex n \<rparr>
        in if playing s1 \<and> \<not> paused s1 then playNextFrame (clearPending s1) else Inr s1
      else Inr s)"

text \<open>A pending timer fires: it leaves the timer table and runs \<^verbatim>\<open>playNextFrame\<close>.\<close>

definition timerFire :: "nat \<Rightarrow> 'f engine \<Rightarrow> error + 'f engine" where
  "timerFire t s =
     (if t \<in> dom (timers s) then playNextFrame (s \<lparr> timers := (timers s)(t := None) \<rparr>)
      else Inr s)"

subsection \<open>Commands as the template issues them\<close>

text \<open>
  The pause, speed and A/B buttons carry
  \<^verbatim>\<open>:disabled="recording || frameBuffer.length === 0"\<close>: a click on a disabled button
  runs no handler. The mode button and the progress bar are always live.
\<close>

datatype command = ToggleMode | TogglePause | CycleSpeed | SeekToFraction real | ToggleLoopPoint

definition buttonDisabled :: "'f engine \<Rightarrow> bool" where
  "buttonDisabled s = (recording s \<or> length (bufferContents s) = 0)"

fun issue :: "command \<Rightarrow> 'f engine \<Rightarrow> error + 'f engine" where
  "issue ToggleMode s = toggleMode s"
| "issue TogglePause s = (if buttonDisabled s then Inr s else togglePause s)"
| "issue CycleSpeed s = (if buttonDisabled s then Inr s else cycleSpeed s)"
| "issue (SeekToFraction f) s = handleProgressClick f s"
| "issue ToggleLoopPoint s = (if buttonDisabled s then Inr s else Inr (toggleABPoints s))"

text \<open>Everything that can happen to the component, and a run of such events.\<close>

datatype 'f event =
  Capture "'f option" | Timer nat | Command command
  | DragStart | DragStop | MouseMove real | TouchMove real

fun step :: "'f event \<Rightarrow> 'f engine \<Rightarrow> error + 'f engine" where
  "step (Capture video) s = Inr (captureFrame video s)"
| "step (Timer t) s = timerFire t s"
| "step (Command c) s = issue c s"
| "step DragStart s = Inr (startDrag s)"
| "step DragStop s = Inr (stopDrag s)"
| "step (MouseMove f) s = handleDrag f s"
| "step (TouchMove f) s = handleTouchMove f s"

fun run :: "'f event list \<Rightarrow> 'f engine \<Rightarrow> error + 'f engine" where
  "run [] s = Inr s"
| "run (e # es) s = (case step e s of Inl err \<Rightarrow> Inl err | Inr s' \<Rightarrow> run es s')"

text \<open>
  A state to run examples from: the mounted component after five frames, numbered 2 to
  6, have been captured.
\<close>

definition recordedState :: "nat engine" where
  "recordedState = captureAll [2, 3, 4, 5, 6] mountedState"

lemmas engine_defs =
  mountedState_def initialState_def FRAME_RATE_def bufferContents_def playbackContents_def
  truthy_def truthyId_def jsdiv_def setTimeout_def clearPending_def bufferPush_def
  pushFrame_def captureFrame_def frameDelay_def loopWrap_def wrapIndex_def
  playNextFrame_def tickGuard_def takeSnapshot_def startPlayback_def toggleMode_def
  toggleABPoints_def togglePause_def handleProgressClick_def adjustSpeed_def speeds_def
  cycleSpeed_def
  timerFire_def buttonDisabled_def startDrag_def stopDrag_def handleDrag_def
  handleTouchMove_def recordedState_def Let_def

section \<open>Double rounding at the seeks used below\<close>

lemma roundDouble_zero: "roundDouble 0 = 0"
  by (simp add: roundDouble_def)

lemma roundDouble_between:
  assumes "2 powr of_int e \<le> x" and "x < 2 powr (of_int e + 1)"
  shows "roundDouble x
           = of_int (roundHalfEven (x / 2 powr (of_int e - 52))) * 2 powr (of_int e - 52)"
proof -
  have "0 < (2::real) powr of_int e" by simp
  then have pos: "0 < x"
    using assms(1) by (rule less_le_trans)
  have "of_int e \<le> log 2 x" using pos assms(1) by (simp add: le_log_iff)
  moreover have "log 2 x < of_int e + 1" using pos assms(2) by (simp add: log_less_iff)
  ultimately have "\<lfloor>log 2 x\<rfloor> = e" by (intro floor_unique) simp_all
  then show ?thesis
    using pos by (simp add: roundDouble_def Let_def)
qed

lemma roundDouble_tenth: "roundDouble (1 / 10) = 7205759403792794 / 72057594037927936"
proof -
  have "roundDouble (1 / 10)
          = of_int (roundHalfEven ((1 / 10) / 2 powr (of_int (- 4) - 52))) * 2 powr (of_int (- 4) - 52)"
    by (rule roundDouble_between) (simp_all add: powr_minus_divide)
  also have "2 powr (of_int (- 4) - 52) = (1 / 72057594037927936 :: real)"
    by (simp add: powr_minus_divide)
  finally show ?thesis
    by (simp add: roundHalfEven_def Let_def)
qed

lemma seek_tenth_of_five: "\<lfloor>roundDouble (roundDouble (1 / 10) * 5)\<rfloor> = 0"
proof -
  let ?x = "18014398509481985 / 36028797018963968 :: real"
  have x: "roundDouble (1 / 10) * 5 = ?x"
    by (simp add: roundDouble_tenth)
  have "roundDouble ?x
          = of_int (roundHalfEven (?x / 2 powr (of_int (- 1) - 52))) * 2 powr (of_int (- 1) - 52)"
    by (rule roundDouble_between) (simp_all add: powr_minus_divide)
  also have "2 powr (of_int (- 1) - 52) = (1 / 9007199254740992 :: real)"
    by (simp add: powr_minus_divide)
  finally have r: "roundDouble ?x = 1 / 2"
    by (simp add: roundHalfEven_def Let_def)
  show ?thesis unfolding x r by simp
qed

lemma seek_half_of_five: "\<lfloor>roundDouble (roundDouble (1 / 2) * 5)\<rfloor> = 2"
proof -
  have "roundDouble (1 / 2)
          = of_int (roundHalfEven ((1 / 2) / 2 powr (of_int (- 1) - 52))) * 2 powr (of_int (- 1) - 52)"
    by (rule roundDouble_between) (simp_all add: powr_minus_divide)
  also have "2 powr (of_int (- 1) - 52) = (1 / 9007199254740992 :: real)"
    by (simp add: powr_minus_divide)
  finally have h: "roundDouble (1 / 2) = 1 / 2"
    by (simp add: roundHalfEven_def Let_def)
  have "roundDouble (5 / 2)
          = of_int (roundHalfEven ((5 / 2) / 2 powr (of_int 1 - 52))) * 2 powr (of_int 1 - 52)"
    by (rule roundDouble_between) (simp_all add: powr_minus_divide)
  also have "2 powr (of_int 1 - 52) = (1 / 2251799813685248 :: real)"
    by (simp add: powr_minus_divide)
  finally have r: "roundDouble (5 / 2) = 5 / 2"
    by (simp add: roundHalfEven_def Let_def)
  have "roundDouble (1 / 2) * 5 = 5 / 2" by (simp add: h)
  then show ?thesis by (simp only: r) simp
qed

text \<open>
  The rounding is visible in the cursor: a click a third of the way along a sequence of
  300 frames seeks to frame 100, where the exact product of the rounded click position
  and 300 lies just below 100.
\<close>

lemma roundDouble_third: "roundDouble (1 / 3) = 6004799503160661 / 18014398509481984"
proof -
  have "roundDouble (1 / 3)
          = of_int (roundHalfEven ((1 / 3) / 2 powr (of_int (- 2) - 52))) * 2 powr (of_int (- 2) - 52)"
    by (rule roundDouble_between) (simp_all add: powr_minus_divide)
  also have "2 powr (of_int (- 2) - 52) = (1 / 18014398509481984 :: real)"
    by (simp add: powr_minus_divide)
  finally show ?thesis
    by (simp add: roundHalfEven_def Let_def)
qed

lemma seek_third_of_300: "\<lfloor>roundDouble (roundDouble (1 / 3) * 300)\<rfloor> = 100"
proof -
  let ?x = "6004799503160661 / 18014398509481984 * 300 :: real"
  have "roundDouble ?x
          = of_int (roundHalfEven (?x / 2 powr (of_int 6 - 52))) * 2 powr (of_int 6 - 52)"
    by (rule roundDouble_between) (simp_all add: powr_minus_divide powr_add)
  also have "2 powr (of_int 6 - 52) = (1 / 70368744177664 :: real)"
    by (simp add: powr_minus_divide)
  finally have r: "roundDouble ?x = 100"
    by (simp add: roundHalfEven_def Let_def)
  show ?thesis unfolding roundDouble_third r by simp
qed

lemma unrounded_third_of_300: "\<lfloor>roundDouble (1 / 3) * 300\<rfloor> = 99"
  by (simp add: roundDouble_third)

section \<open>Speed and delay\<close>

text \<open>
  C10. For positive speed multipliers m1 < m2 the delay computed for m1 is at least the
  delay computed for m2, both are at least the 16 ms floor, and the computed delay is
  the larger of the floor and the base interval 1000 / FRAME_RATE divided by the
  multiplier.
\<close>

theorem frameDelay_antimono:
  assumes "0 < m1" and "m1 < m2"
  shows "frameDelay m1 \<ge> frameDelay m2 \<and> frameDelay m1 \<ge> 16 \<and> frameDelay m2 \<ge> 16
       \<and> frameDelay m1 = max 16 ((1000 / real FRAME_RATE) / m1)
       \<and> frameDelay m2 = max 16 ((1000 / real FRAME_RATE) / m2)"
proof -
  have "0 < m2" using assms by linarith
  have "1000 / (60 * m2) \<le> 1000 / (60 * m1)"
    using assms by (simp add: frac_le)
  then show ?thesis
    by (auto simp: frameDelay_def FRAME_RATE_def max_def)
qed

theorem frameDelay_antimono_witness:
  "frameDelay (1 / 4) \<ge> frameDelay 2 \<and> frameDelay (1 / 4) \<ge> 16 \<and> frameDelay 2 \<ge> 16
     \<and> frameDelay (1 / 4) = 200 / 3 \<and> frameDelay 2 = 16"
proof -
  have "frameDelay (1 / 4) = 200 / 3" "frameDelay 2 = 16"
    by (simp_all add: frameDelay_def FRAME_RATE_def)
  with frameDelay_antimono [of "1 / 4" 2] show ?thesis by simp
qed

section \<open>The frame buffer\<close>

lemma bufferPush_drop:
  "length buf \<le> cap \<Longrightarrow> bufferPush cap fr buf = drop (Suc (length buf) - cap) (buf @ [fr])"
  by (cases buf) (auto simp: bufferPush_def Let_def Suc_diff_le drop_Cons')

lemma captureFrame_recording_contents:
  assumes "recording s" "\<not> playing s" "hasCanvas s" "hasLiveVideo s" "hasContext s"
  shows "bufferContents (captureFrame (Some fr) s) = bufferPush (bufferSize s) fr (bufferContents s)"
  using assms by (simp add: captureFrame_def pushFrame_def bufferContents_def Let_def)

lemma captureFrame_flags:
  "recording (captureFrame fd s) = recording s"
  "playing (captureFrame fd s) = playing s"
  "hasCanvas (captureFrame fd s) = hasCanvas s"
  "hasLiveVideo (captureFrame fd s) = hasLiveVideo s"
  "hasContext (captureFrame fd s) = hasContext s"
  "bufferSize (captureFrame fd s) = bufferSize s"
  by (simp_all add: captureFrame_def pushFrame_def Let_def split: option.splits)

lemma captureAll_contents:
  assumes "recording s" "\<not> playing s" "hasCanvas s" "hasLiveVideo s" "hasContext s"
    and "length (bufferContents s) \<le> bufferSize s"
  shows "bufferContents (captureAll frs s)
           = drop (length (bufferContents s) + length frs - bufferSize s) (bufferContents s @ frs)"
  using assms
proof (induction frs arbitrary: s)
  case Nil
  then show ?case by simp
next
  case (Cons fr frs)
  let ?t = "captureFrame (Some fr) s"
  let ?b = "bufferContents s"
  have t: "bufferContents ?t = drop (Suc (length ?b) - bufferSize s) (?b @ [fr])"
    using Cons.prems by (simp add: captureFrame_recording_contents bufferPush_drop)
  have len: "length (bufferContents ?t) \<le> bufferSize ?t"
    using Cons.prems by (simp add: t captureFrame_flags)
  have "bufferContents (captureAll frs ?t)
          = drop (length (bufferContents ?t) + length frs - bufferSize ?t) (bufferContents ?t @ frs)"
    using Cons.prems len by (intro Cons.IH) (simp_all add: captureFrame_flags)
  also have "\<dots> = drop (length ?b + length (fr # frs) - bufferSize s) (?b @ fr # frs)"
  proof (cases "length ?b < bufferSize s")
    case True
    then show ?thesis by (simp add: t captureFrame_flags)
  next
    case False
    with Cons.prems have eq: "length ?b = bufferSize s" by simp
    have t': "bufferContents ?t = tl (?b @ [fr])"
      using eq Cons.prems by (simp add: captureFrame_recording_contents bufferPush_def)
    have "length (bufferContents ?t) = bufferSize s"
      using eq by (simp add: t')
    then have "drop (length (bufferContents ?t) + length frs - bufferSize ?t) (bufferContents ?t @ frs)
                 = drop (length frs) (tl (?b @ [fr]) @ frs)"
      by (simp add: captureFrame_flags t')
    also have "tl (?b @ [fr]) @ frs = tl (?b @ fr # frs)"
      by (cases ?b) simp_all
    also have "drop (length frs) (tl (?b @ fr # frs)) = drop (Suc (length frs)) (?b @ fr # frs)"
      by (simp only: drop_Suc)
    also have "Suc (length frs) = length ?b + length (fr # frs) - bufferSize s"
      using eq by simp
    finally show ?thesis .
  qed
  finally show ?case by simp
qed

lemma captureAll_flags:
  "recording (captureAll frs s) = recording s"
  "playing (captureAll frs s) = playing s"
  "hasCanvas (captureAll frs s) = hasCanvas s"
  "hasLiveVideo (captureAll frs s) = hasLiveVideo s"
  "hasContext (captureAll frs s) = hasContext s"
  "bufferSize (captureAll frs s) = bufferSize s"
  by (induction frs arbitrary: s) (simp_all add: captureFrame_flags)

text \<open>
  C7. From an empty buffer of capacity C, in recording mode, N captured frames leave
  min N C frames in the buffer, namely the most recent ones in arrival order; after
  every single capture the length is at most C, and a capture that would exceed the
  capacity drops exactly the oldest frame.
\<close>

theorem bounded_buffer:
  assumes "recording s" and "\<not> playing s" and "hasCanvas s" and "hasLiveVideo s"
    and "hasContext s" and "bufferContents s = []"
  shows "length (bufferContents (captureAll frs s)) = min (length frs) (bufferSize s)
       \<and> bufferContents (captureAll frs s) = drop (length frs - bufferSize s) frs
       \<and> (\<forall>k. length (bufferContents (captureAll (take k frs) s)) \<le> bufferSize s)
       \<and> (\<forall>k fr. bufferContents (captureFrame (Some fr) (captureAll (take k frs) s))
              = (if length (bufferContents (captureAll (take k frs) s)) < bufferSize s
                 then bufferContents (captureAll (take k frs) s) @ [fr]
                 else tl (bufferContents (captureAll (take k frs) s) @ [fr])))"
proof -
  have contents: "bufferContents (captureAll xs s) = drop (length xs - bufferSize s) xs" for xs
    using captureAll_contents [of s xs] assms by simp
  have evict: "bufferContents (captureFrame (Some fr) (captureAll xs s))
        = (if length (bufferContents (captureAll xs s)) < bufferSize s
           then bufferContents (captureAll xs s) @ [fr]
           else tl (bufferContents (captureAll xs s) @ [fr]))" for xs fr
    using assms
    by (simp add: captureFrame_recording_contents captureAll_flags bufferPush_def)
  have "length (bufferContents (captureAll frs s)) = min (length frs) (bufferSize s)"
    by (simp add: contents)
  moreover have "\<forall>k. length (bufferContents (captureAll (take k frs) s)) \<le> bufferSize s"
    by (auto simp: contents)
  ultimately show ?thesis
    using contents evict by blast
qed

theorem bounded_buffer_witness:
  "bufferContents (captureAll [1, 2, 3, 4, 5, 6] (mountedState \<lparr> bufferSize := 5 \<rparr>))
     = [2, 3, 4, 5, 6 :: nat]
   \<and> length (bufferContents (captureAll [1, 2, 3, 4, 5, 6 :: nat] (mountedState \<lparr> bufferSize := 5 \<rparr>)))
     = 5"
proof -
  let ?s = "mountedState \<lparr> bufferSize := 5 \<rparr> :: nat engine"
  have "recording ?s" "\<not> playing ?s" "hasCanvas ?s" "hasLiveVideo ?s" "hasContext ?s"
    "bufferContents ?s = []"
    by (simp_all add: mountedState_def initialState_def bufferContents_def)
  from bounded_buffer [OF this, of "[1, 2, 3, 4, 5, 6]"] show ?thesis
    by simp
qed

section \<open>One playback step\<close>

lemma playNextFrame_blocked: "\<not> tickGuard s \<Longrightarrow> playNextFrame s = Inr s"
  by (auto simp: playNextFrame_def tickGuard_def)

lemma playNextFrame_reads:
  assumes "tickGuard s" and "0 \<le> wrapIndex s" and "wrapIndex s < int (length (playbackContents s))"
  shows "playNextFrame s =
           Inr (setTimeout (frameDelay (playbackSpeed s))
                  (s \<lparr> currentPlaybackIndex := wrapIndex s + 1,
                       progress := jsdiv (wrapIndex s) (length (playbackContents s)),
                       canvasImage := Some (playbackContents s ! nat (wrapIndex s)) \<rparr>))"
  using assms by (simp add: playNextFrame_def tickGuard_def Let_def)

lemma playNextFrame_throws:
  assumes "tickGuard s" and "\<not> (0 \<le> wrapIndex s \<and> wrapIndex s < int (length (playbackContents s)))"
  shows "playNextFrame s = Inl TypeError"
  using assms by (auto simp: playNextFrame_def tickGuard_def Let_def)

lemma playNextFrame_keeps:
  assumes "playNextFrame s = Inr s'"
  shows "recording s' = recording s" "playing s' = playing s" "paused s' = paused s"
    "playbackSpeed s' = playbackSpeed s" "abPointA s' = abPointA s" "abPointB s' = abPointB s"
    "abPointMode s' = abPointMode s" "statusText s' = statusText s" "arrays s' = arrays s"
    "nextAddr s' = nextAddr s" "frameBuffer s' = frameBuffer s" "bufferSize s' = bufferSize s"
    "playbackFrames s' = playbackFrames s" "hasLiveVideo s' = hasLiveVideo s"
    "hasCanvas s' = hasCanvas s" "hasContext s' = hasContext s" "dragging s' = dragging s"
  using assms
  by (auto simp: playNextFrame_def setTimeout_def Let_def split: if_splits)

lemma playNextFrame_keeps_derived:
  assumes "playNextFrame s = Inr s'"
  shows "bufferContents s' = bufferContents s" "playbackContents s' = playbackContents s"
    "tickGuard s' = tickGuard s"
  using playNextFrame_keeps [OF assms]
  by (simp_all add: bufferContents_def playbackContents_def tickGuard_def)

section \<open>The mode toggle\<close>

lemma toggleMode_entering:
  assumes "recording s"
  shows "toggleMode s = startPlayback (s \<lparr> recording := False, playing := True, paused := False \<rparr>)"
  using assms by (simp add: toggleMode_def Let_def)

lemma toggleMode_leaving:
  assumes "\<not> recording s"
  shows "toggleMode s =
           Inr (if truthyId (playbackTimeoutId s)
                then (clearPending (s \<lparr> recording := True, playing := False, paused := False,
                                        progress := Some (- 1) \<rparr>)) \<lparr> playbackTimeoutId := None \<rparr>
                else s \<lparr> recording := True, playing := False, paused := False,
                        progress := Some (- 1) \<rparr>)"
  using assms by (simp add: toggleMode_def Let_def)

lemma startPlayback_empty: "bufferContents s = [] \<Longrightarrow> startPlayback s = Inr s"
  by (simp add: startPlayback_def)

lemma startPlayback_cases:
  assumes "startPlayback s = Inr s'"
  obtains "bufferContents s = []" and "s' = s"
  | x where "bufferContents s \<noteq> []"
      and "playNextFrame ((takeSnapshot s) \<lparr> currentPlaybackIndex := 0 \<rparr>) = Inr x"
      and "s' = x \<lparr> statusText := StatusReplaying \<rparr>"
  using assms by (auto simp: startPlayback_def split: if_splits sum.splits)

lemma startPlayback_keeps_all:
  assumes "startPlayback s = Inr s'"
  shows "recording s' = recording s \<and> playing s' = playing s \<and> paused s' = paused s \<and>
    abPointA s' = abPointA s \<and> abPointB s' = abPointB s \<and> abPointMode s' = abPointMode s \<and>
    frameBuffer s' = frameBuffer s \<and> bufferContents s' = bufferContents s \<and>
    hasCanvas s' = hasCanvas s \<and> hasContext s' = hasContext s"
  using assms
proof (cases rule: startPlayback_cases)
  case 1
  then show ?thesis by simp
next
  case (2 x)
  show ?thesis
    using playNextFrame_keeps [OF 2(2)]
    by (simp add: 2(3) takeSnapshot_def bufferContents_def)
qed

lemma startPlayback_keeps:
  assumes "startPlayback s = Inr s'"
  shows "recording s' = recording s" "playing s' = playing s" "paused s' = paused s"
    "abPointA s' = abPointA s" "abPointB s' = abPointB s" "abPointMode s' = abPointMode s"
    "frameBuffer s' = frameBuffer s" "bufferContents s' = bufferContents s"
    "hasCanvas s' = hasCanvas s" "hasContext s' = hasContext s"
  using startPlayback_keeps_all [OF assms] by simp_all

lemma startPlayback_snapshot_all:
  assumes "bufferContents s \<noteq> []" and "startPlayback s = Inr s'"
  shows "playbackContents s' = bufferContents s \<and> playbackFrames s' = nextAddr s \<and>
    nextAddr s' = Suc (nextAddr s) \<and> arrays s' = (arrays s)(nextAddr s := bufferContents s)"
  using assms(2)
proof (cases rule: startPlayback_cases)
  case 1
  with assms(1) show ?thesis by simp
next
  case (2 x)
  show ?thesis
    using playNextFrame_keeps [OF 2(2)]
    by (simp add: 2(3) takeSnapshot_def playbackContents_def)
qed

lemma startPlayback_snapshot:
  assumes "bufferContents s \<noteq> []" and "startPlayback s = Inr s'"
  shows "playbackContents s' = bufferContents s" and "playbackFrames s' = nextAddr s"
    and "nextAddr s' = Suc (nextAddr s)"
    and "arrays s' = (arrays s)(nextAddr s := bufferContents s)"
  using startPlayback_snapshot_all [OF assms] by simp_all

lemma startPlayback_first_frame:
  assumes "bufferContents s \<noteq> []" and "\<not> abPointMode s" and "playing s" and "\<not> paused s"
  shows "\<exists>t. startPlayback s = Inr t
           \<and> (hasCanvas s \<and> hasContext s \<longrightarrow>
                  currentPlaybackIndex t = 1 \<and> canvasImage t = Some (hd (bufferContents s)))
           \<and> (\<not> (hasCanvas s \<and> hasContext s) \<longrightarrow> currentPlaybackIndex t = 0)"
  using assms
  by (cases "bufferContents s")
     (auto simp: startPlayback_def playNextFrame_def wrapIndex_def playbackContents_def
                 takeSnapshot_def setTimeout_def Let_def)

lemma toggleMode_keeps:
  assumes "toggleMode s = Inr t"
  shows "recording t = (\<not> recording s) \<and> playing t = recording s \<and> \<not> paused t
       \<and> abPointA t = abPointA s \<and> abPointB t = abPointB s \<and> abPointMode t = abPointMode s
       \<and> bufferContents t = bufferContents s
       \<and> (recording s \<and> bufferContents s \<noteq> [] \<longrightarrow> playbackContents t = bufferContents s)"
proof (cases "recording s")
  case True
  let ?s4 = "s \<lparr> recording := False, playing := True, paused := False \<rparr>"
  have sp: "startPlayback ?s4 = Inr t"
    using assms True by (simp add: toggleMode_entering)
  have b4: "bufferContents ?s4 = bufferContents s"
    by (simp add: bufferContents_def)
  show ?thesis
    using startPlayback_keeps [OF sp] startPlayback_snapshot(1) [OF _ sp] True
    by (simp add: b4)
next
  case False
  then show ?thesis
    using assms
    by (auto simp: toggleMode_leaving clearPending_def bufferContents_def
             split: option.splits if_splits)
qed

lemma toggleMode_entering_first_frame:
  assumes "recording s" and "bufferContents s \<noteq> []" and "\<not> abPointMode s"
  shows "\<exists>t. toggleMode s = Inr t
           \<and> (hasCanvas s \<and> hasContext s \<longrightarrow>
                  currentPlaybackIndex t = 1 \<and> canvasImage t = Some (hd (bufferContents s)))
           \<and> (\<not> (hasCanvas s \<and> hasContext s) \<longrightarrow> currentPlaybackIndex t = 0)"
proof -
  let ?s4 = "s \<lparr> recording := False, playing := True, paused := False \<rparr>"
  have "bufferContents ?s4 \<noteq> []" "\<not> abPointMode ?s4" "playing ?s4" "\<not> paused ?s4"
    using assms by (simp_all add: bufferContents_def)
  from startPlayback_first_frame [OF this] show ?thesis
    using assms(1) by (simp add: toggleMode_entering bufferContents_def)
qed

lemma toggleMode_leaving_timer:
  assumes "\<not> recording s"
  shows "\<exists>t. toggleMode s = Inr t
           \<and> (\<forall>h. playbackTimeoutId s = Some h \<and> h \<noteq> 0 \<longrightarrow>
                  playbackTimeoutId t = None \<and> timers t h = None)
           \<and> (playbackTimeoutId s = None \<longrightarrow> playbackTimeoutId t = None)"
  using assms
  by (auto simp: toggleMode_leaving clearPending_def truthyId_def split: option.splits)

text \<open>
  C3 (as the code has it). Every mode toggle that returns clears the paused flag and
  leaves the buffer's contents and the A/B loop state (both points and the loop flag)
  as they were: \<^verbatim>\<open>toggleMode\<close> never touches the loop. Entering replay with a
  non-empty buffer makes a copy of the buffer the playback sequence and restarts the
  cursor at 0; with no loop carried over the toggle returns, and with the canvas
  present its first step has drawn frame 0 and left the cursor at 1. Leaving replay
  always returns, cancels the timer whose handle is stored and clears the handle.
\<close>

theorem toggleMode_session_state:
  "(\<forall>t. toggleMode s = Inr t \<longrightarrow>
        recording t = (\<not> recording s) \<and> playing t = recording s \<and> \<not> paused t
      \<and> abPointA t = abPointA s \<and> abPointB t = abPointB s \<and> abPointMode t = abPointMode s
      \<and> bufferContents t = bufferContents s
      \<and> (recording s \<and> bufferContents s \<noteq> [] \<longrightarrow> playbackContents t = bufferContents s))
   \<and> (recording s \<and> bufferContents s \<noteq> [] \<and> \<not> abPointMode s \<longrightarrow>
        (\<exists>t. toggleMode s = Inr t
           \<and> (hasCanvas s \<and> hasContext s \<longrightarrow>
                  currentPlaybackIndex t = 1 \<and> canvasImage t = Some (hd (bufferContents s)))
           \<and> (\<not> (hasCanvas s \<and> hasContext s) \<longrightarrow> currentPlaybackIndex t = 0)))
   \<and> (\<not> recording s \<longrightarrow>
        (\<exists>t. toggleMode s = Inr t
           \<and> (\<forall>h. playbackTimeoutId s = Some h \<and> h \<noteq> 0 \<longrightarrow>
                  playbackTimeoutId t = None \<and> timers t h = None)
           \<and> (playbackTimeoutId s = None \<longrightarrow> playbackTimeoutId t = None)))"
  using toggleMode_keeps [of s] toggleMode_entering_first_frame [of s]
    toggleMode_leaving_timer [of s]
  by blast

theorem toggleMode_session_state_witness:
  "\<exists>t u. toggleMode recordedState = Inr t
      \<and> playbackContents t = [2, 3, 4, 5, 6] \<and> currentPlaybackIndex t = 1
      \<and> canvasImage t = Some 2 \<and> playing t \<and> \<not> paused t
      \<and> playbackTimeoutId t = Some 1
      \<and> toggleMode t = Inr u
      \<and> recording u \<and> playbackTimeoutId u = None \<and> timers u 1 = None
      \<and> bufferContents u = [2, 3, 4, 5, 6]"
proof -
  have pre: "recording recordedState" "bufferContents recordedState = [2, 3, 4, 5, 6]"
    "\<not> abPointMode recordedState" "hasCanvas recordedState" "hasContext recordedState"
    by (simp_all add: engine_defs)
  from toggleMode_session_state [of recordedState] pre
  obtain t where t: "toggleMode recordedState = Inr t" "currentPlaybackIndex t = 1"
      "canvasImage t = Some 2"
    by auto
  from toggleMode_session_state [of recordedState] pre t(1)
  have t': "playbackContents t = [2, 3, 4, 5, 6]" "playing t" "\<not> paused t" "\<not> recording t"
      "bufferContents t = [2, 3, 4, 5, 6]"
    by auto
  have tid: "playbackTimeoutId t = Some 1"
    using t(1) by (auto simp: engine_defs)
  from toggleMode_session_state [of t] t'(4) tid
  obtain u where u: "toggleMode t = Inr u" "playbackTimeoutId u = None" "timers u 1 = None"
    by auto
  from toggleMode_session_state [of t] u(1) t'
  have "recording u" "bufferContents u = [2, 3, 4, 5, 6]"
    by auto
  with t t' tid u show ?thesis by blast
qed

text \<open>
  C3 as stated says the toggle clears the A/B loop and restarts the cursor at 0. With a
  loop from 1 to 3 set in a first replay session, the loop is still set and active after
  the toggle back to recording, and after the next toggle into replay, whose first step
  therefore draws the frame at index 1 and leaves the cursor at 2.
\<close>

theorem toggleMode_keeps_loop:
  "map_sum id (\<lambda>s. (recording s, abPointA s, abPointB s, abPointMode s))
     (run [Command ToggleMode, Command ToggleLoopPoint, Timer 1, Timer 2, Command ToggleLoopPoint,
           Command ToggleMode] recordedState)
   = Inr (True, Some 1, Some 3, True)
  \<and> map_sum id (\<lambda>s. (recording s, abPointA s, abPointB s, abPointMode s,
                        currentPlaybackIndex s, canvasImage s))
     (run [Command ToggleMode, Command ToggleLoopPoint, Timer 1, Timer 2, Command ToggleLoopPoint,
           Command ToggleMode, Capture (Some 7), Command ToggleMode] recordedState)
   = Inr (False, Some 1, Some 3, True, 2, Some 3)"
  by (simp add: engine_defs)

text \<open>
  C1 (as the code has it). Toggling the mode while recording with an empty buffer does
  not throw and starts no replay session: no snapshot is taken, the cursor, the timer,
  the canvas and the buffer are left as they were. The mode flags do flip, though:
  \<^verbatim>\<open>toggleMode\<close> sets \<^verbatim>\<open>recording\<close> to false and \<^verbatim>\<open>playing\<close> to true before
  \<^verbatim>\<open>startPlayback\<close> looks at the buffer.
\<close>

theorem toggleMode_empty_buffer:
  assumes "recording s" and "bufferContents s = []"
  shows "toggleMode s = Inr (s \<lparr> recording := False, playing := True, paused := False \<rparr>)"
  using assms by (simp add: toggleMode_def startPlayback_def bufferContents_def Let_def)

theorem toggleMode_empty_buffer_witness:
  "toggleMode (mountedState :: nat engine)
     = Inr (mountedState \<lparr> recording := False, playing := True, paused := False \<rparr>)"
proof -
  have "recording (mountedState :: nat engine)" "bufferContents (mountedState :: nat engine) = []"
    by (simp_all add: engine_defs)
  then show ?thesis by (rule toggleMode_empty_buffer)
qed

text \<open>
  C1 as stated says the mode stays Recording. On the freshly mounted component, whose
  buffer is empty, the toggle leaves \<^verbatim>\<open>recording\<close> false and \<^verbatim>\<open>playing\<close> true.
\<close>

theorem toggleMode_empty_buffer_switches:
  "recording (mountedState :: nat engine) \<and> bufferContents (mountedState :: nat engine) = []
   \<and> map_sum id recording (toggleMode (mountedState :: nat engine)) = Inr False
   \<and> map_sum id playing (toggleMode (mountedState :: nat engine)) = Inr True"
  by (simp add: engine_defs)

section \<open>The snapshot\<close>

text \<open>
  No handler writes to an array other than the buffer once the array is allocated:
  the store below \<open>nextAddr\<close> changes at the buffer's address only.
\<close>

lemma playNextFrame_store:
  assumes "playNextFrame s = Inr s'"
  shows "frameBuffer s' = frameBuffer s \<and> nextAddr s \<le> nextAddr s'
       \<and> (\<forall>a. a < nextAddr s \<and> a \<noteq> frameBuffer s \<longrightarrow> arrays s' a = arrays s a)"
  using playNextFrame_keeps [OF assms] by simp

lemma captureFrame_store:
  "frameBuffer (captureFrame fd s) = frameBuffer s \<and> nextAddr s \<le> nextAddr (captureFrame fd s)
     \<and> (\<forall>a. a < nextAddr s \<and> a \<noteq> frameBuffer s \<longrightarrow> arrays (captureFrame fd s) a = arrays s a)"
  by (simp add: captureFrame_def pushFrame_def Let_def split: option.splits)

lemma startPlayback_store:
  assumes "startPlayback s = Inr s'"
  shows "frameBuffer s' = frameBuffer s \<and> nextAddr s \<le> nextAddr s'
       \<and> (\<forall>a. a < nextAddr s \<and> a \<noteq> frameBuffer s \<longrightarrow> arrays s' a = arrays s a)"
  using assms
proof (cases rule: startPlayback_cases)
  case 1
  then show ?thesis by simp
next
  case (2 x)
  show ?thesis
    using playNextFrame_keeps [OF 2(2)] by (simp add: 2(3) takeSnapshot_def)
qed

lemma toggleMode_store:
  assumes "toggleMode s = Inr s'"
  shows "frameBuffer s' = frameBuffer s \<and> nextAddr s \<le> nextAddr s'
       \<and> (\<forall>a. a < nextAddr s \<and> a \<noteq> frameBuffer s \<longrightarrow> arrays s' a = arrays s a)"
proof (cases "recording s")
  case True
  then have "startPlayback (s \<lparr> recording := False, playing := True, paused := False \<rparr>) = Inr s'"
    using assms by (simp add: toggleMode_entering)
  from startPlayback_store [OF this] show ?thesis by simp
next
  case False
  then show ?thesis
    using assms by (auto simp: toggleMode_leaving clearPending_def split: option.splits if_splits)
qed

lemma togglePause_store:
  assumes "togglePause s = Inr s'"
  shows "frameBuffer s' = frameBuffer s \<and> nextAddr s \<le> nextAddr s'
       \<and> (\<forall>a. a < nextAddr s \<and> a \<noteq> frameBuffer s \<longrightarrow> arrays s' a = arrays s a)"
  using assms
  by (auto simp: togglePause_def Let_def split: if_splits dest!: playNextFrame_store)

lemma clearPending_keeps:
  "frameBuffer (clearPending s) = frameBuffer s" "nextAddr (clearPending s) = nextAddr s"
  "arrays (clearPending s) = arrays s"
  by (simp_all add: clearPending_def split: option.splits)

lemma adjustSpeed_store:
  assumes "adjustSpeed v s = Inr s'"
  shows "frameBuffer s' = frameBuffer s \<and> nextAddr s \<le> nextAddr s'
       \<and> (\<forall>a. a < nextAddr s \<and> a \<noteq> frameBuffer s \<longrightarrow> arrays s' a = arrays s a)"
  using assms
  by (auto simp: adjustSpeed_def Let_def clearPending_keeps split: if_splits
           dest!: playNextFrame_store)

lemma cycleSpeed_store:
  assumes "cycleSpeed s = Inr s'"
  shows "frameBuffer s' = frameBuffer s \<and> nextAddr s \<le> nextAddr s'
       \<and> (\<forall>a. a < nextAddr s \<and> a \<noteq> frameBuffer s \<longrightarrow> arrays s' a = arrays s a)"
  using adjustSpeed_store [of _ "s \<lparr> playbackSpeed := _ \<rparr>" s'] assms
  by (simp add: cycleSpeed_def Let_def)

lemma handleProgressClick_store:
  assumes "handleProgressClick f s = Inr s'"
  shows "frameBuffer s' = frameBuffer s \<and> nextAddr s \<le> nextAddr s'
       \<and> (\<forall>a. a < nextAddr s \<and> a \<noteq> frameBuffer s \<longrightarrow> arrays s' a = arrays s a)"
  using assms
  by (auto simp: handleProgressClick_def Let_def clearPending_keeps split: if_splits
           dest!: playNextFrame_store)

lemma handleTouchMove_store:
  assumes "handleTouchMove f s = Inr s'"
  shows "frameBuffer s' = frameBuffer s \<and> nextAddr s \<le> nextAddr s'
       \<and> (\<forall>a. a < nextAddr s \<and> a \<noteq> frameBuffer s \<longrightarrow> arrays s' a = arrays s a)"
  using assms
  by (auto simp: handleTouchMove_def Let_def clearPending_keeps split: if_splits
           dest!: playNextFrame_store)

lemma timerFire_store:
  assumes "timerFire h s = Inr s'"
  shows "frameBuffer s' = frameBuffer s \<and> nextAddr s \<le> nextAddr s'
       \<and> (\<forall>a. a < nextAddr s \<and> a \<noteq> frameBuffer s \<longrightarrow> arrays s' a = arrays s a)"
  using assms
  by (auto simp: timerFire_def split: if_splits dest!: playNextFrame_store)

lemma step_store:
  assumes "step e s = Inr s'"
  shows "frameBuffer s' = frameBuffer s \<and> nextAddr s \<le> nextAddr s'
       \<and> (\<forall>a. a < nextAddr s \<and> a \<noteq> frameBuffer s \<longrightarrow> arrays s' a = arrays s a)"
proof (cases e)
  case (Capture fd)
  then show ?thesis using assms captureFrame_store [of fd s] by auto
next
  case (Timer h)
  then show ?thesis using assms timerFire_store [of h s s'] by simp
next
  case DragStart
  then show ?thesis using assms by (auto simp: startDrag_def)
next
  case DragStop
  then show ?thesis using assms by (auto simp: stopDrag_def)
next
  case (MouseMove f)
  then show ?thesis using assms handleProgressClick_store [of f s s']
    by (auto simp: handleDrag_def split: if_splits)
next
  case (TouchMove f)
  then show ?thesis using assms handleTouchMove_store [of f s s'] by simp
next
  case (Command c)
  show ?thesis
  proof (cases c)
    case ToggleMode
    then show ?thesis using assms Command toggleMode_store [of s s'] by simp
  next
    case TogglePause
    then show ?thesis using assms Command togglePause_store [of s s']
      by (auto split: if_splits)
  next
    case CycleSpeed
    then show ?thesis using assms Command cycleSpeed_store [of s s']
      by (auto split: if_splits)
  next
    case (SeekToFraction f)
    then show ?thesis using assms Command handleProgressClick_store [of f s s'] by simp
  next
    case ToggleLoopPoint
    then show ?thesis using assms Command
      by (auto simp: toggleABPoints_def split: if_splits)
  qed
qed

lemma run_store:
  assumes "run es s = Inr s'"
  shows "frameBuffer s' = frameBuffer s \<and> nextAddr s \<le> nextAddr s'
       \<and> (\<forall>a. a < nextAddr s \<and> a \<noteq> frameBuffer s \<longrightarrow> arrays s' a = arrays s a)"
  using assms
proof (induction es arbitrary: s)
  case Nil
  then show ?case by simp
next
  case (Cons e es)
  then obtain m where m: "step e s = Inr m" and rest: "run es m = Inr s'"
    by (auto split: sum.splits)
  from step_store [OF m] Cons.IH [OF rest] show ?case
    by (metis le_trans less_le_trans)
qed

lemma run_allocated:
  assumes "run es mountedState = Inr s"
  shows "frameBuffer s < nextAddr s"
  using run_store [OF assms] by (simp add: mountedState_def initialState_def)

text \<open>
  C9. The array that becomes the playback sequence on entering replay is a new one,
  holding the buffer's frames in the buffer's order, and no later event changes it,
  whatever is pushed to the buffer afterwards.
\<close>

theorem snapshot_independent:
  assumes "recording s" and "frameBuffer s < nextAddr s" and "bufferContents s \<noteq> []"
    and "toggleMode s = Inr s1" and "run es s1 = Inr s2"
  shows "playbackContents s1 = bufferContents s \<and> playbackFrames s1 \<noteq> frameBuffer s1
       \<and> arrays s2 (playbackFrames s1) = bufferContents s
       \<and> length (arrays s2 (playbackFrames s1)) = length (bufferContents s)"
proof -
  let ?s4 = "s \<lparr> recording := False, playing := True, paused := False \<rparr>"
  have sp: "startPlayback ?s4 = Inr s1"
    using assms(1,4) by (simp add: toggleMode_entering)
  have b4: "bufferContents ?s4 = bufferContents s"
    by (simp add: bufferContents_def)
  have ne: "bufferContents ?s4 \<noteq> []"
    using assms(3) by (simp add: b4)
  note snap = startPlayback_snapshot [OF ne sp]
  have copy: "playbackContents s1 = bufferContents s"
    using snap(1) by (simp add: b4)
  have addr: "playbackFrames s1 = nextAddr s" "nextAddr s1 = Suc (nextAddr s)"
    using snap(2,3) by simp_all
  have fb: "frameBuffer s1 = frameBuffer s"
    using startPlayback_keeps(7) [OF sp] by simp
  have fresh: "playbackFrames s1 \<noteq> frameBuffer s1" "playbackFrames s1 < nextAddr s1"
    using assms(2) by (simp_all add: addr fb)
  have "arrays s2 (playbackFrames s1) = arrays s1 (playbackFrames s1)"
    using run_store [OF assms(5)] fresh by simp
  then have "arrays s2 (playbackFrames s1) = bufferContents s"
    using copy by (simp add: playbackContents_def)
  with copy fresh(1) show ?thesis by simp
qed

theorem snapshot_independent_witness:
  "\<exists>s1 s2. toggleMode recordedState = Inr s1
     \<and> run [Command ToggleMode, Capture (Some 7), Capture (Some 8)] s1 = Inr s2
     \<and> bufferContents s2 = [2, 3, 4, 5, 6, 7, 8]
     \<and> playbackContents s2 = [2, 3, 4, 5, 6]
     \<and> arrays s2 (playbackFrames s1) = [2, 3, 4, 5, 6]"
proof -
  define s1 where "s1 = projr (toggleMode recordedState)"
  define s2 where "s2 = projr (run [Command ToggleMode, Capture (Some 7), Capture (Some 8)] s1)"
  have t: "toggleMode recordedState = Inr s1"
    by (simp add: s1_def engine_defs)
  have r: "run [Command ToggleMode, Capture (Some 7), Capture (Some 8)] s1 = Inr s2"
    by (simp add: s2_def s1_def engine_defs)
  have pre: "recording recordedState" "frameBuffer recordedState < nextAddr recordedState"
    "bufferContents recordedState \<noteq> []" "bufferContents recordedState = [2, 3, 4, 5, 6]"
    by (simp_all add: engine_defs)
  have post: "bufferContents s2 = [2, 3, 4, 5, 6, 7, 8]" "playbackFrames s2 = playbackFrames s1"
    by (simp_all add: s2_def s1_def engine_defs)
  from snapshot_independent [OF pre(1,2,3) t r]
  have "arrays s2 (playbackFrames s1) = [2, 3, 4, 5, 6]"
    by (simp add: pre(4))
  then show ?thesis
    using t r post by (auto simp: playbackContents_def)
qed

section \<open>The A/B loop\<close>

lemma loopWrap_range:
  assumes "a \<le> b"
  shows "a \<le> loopWrap a b i" and "loopWrap a b i \<le> b" and "loopWrap a b i = b \<Longrightarrow> a = b"
    and "loopWrap a b i < max (a + 1) b"
  using assms by (auto simp: loopWrap_def Let_def split: if_splits)

lemma loopWrap_next:
  assumes "a \<le> d" and "d < max (a + 1) b"
  shows "loopWrap a b (d + 1) = (if d + 1 \<ge> b then a else d + 1)"
  using assms by (auto simp: loopWrap_def Let_def)

lemma wrapIndex_loop:
  assumes "abPointMode s" and "abPointA s = Some a" and "abPointB s = Some b"
  shows "wrapIndex s = loopWrap a b (currentPlaybackIndex s)"
  using assms by (simp add: wrapIndex_def)

lemma cycle_shift:
  fixes a b d :: int
  assumes "a \<le> d" and "d < max (a + 1) b"
  shows "((if d + 1 \<ge> b then a else d + 1) - a + int k) mod max 1 (b - a)
           = (d - a + int (Suc k)) mod max 1 (b - a)"
proof (cases "d + 1 \<ge> b")
  case True
  then have "d - a + 1 = max 1 (b - a)" using assms by (auto simp: max_def)
  then have "d - a + int (Suc k) = max 1 (b - a) + int k" by simp
  then have "(d - a + int (Suc k)) mod max 1 (b - a) = (max 1 (b - a) + int k) mod max 1 (b - a)"
    by (simp only:)
  also have "\<dots> = int k mod max 1 (b - a)" by (simp only: mod_add_self1)
  finally show ?thesis using True by simp
next
  case False
  then show ?thesis by (simp add: algebra_simps)
qed

lemma cycle_start:
  fixes a b d :: int
  assumes "a \<le> d" and "d < max (a + 1) b"
  shows "a + (d - a + int 0) mod max 1 (b - a) = d"
proof -
  have "0 \<le> d - a" "d - a < max 1 (b - a)" using assms by (auto simp: max_def)
  then show ?thesis by simp
qed

lemma delivered_loop:
  assumes "tickGuard s" and "abPointMode s" and "abPointA s = Some a" and "abPointB s = Some b"
    and "0 \<le> a" and "a \<le> b" and "a < int (length (playbackContents s))"
    and "b \<le> int (length (playbackContents s))"
  shows "delivered n s
           = Some (map (\<lambda>k. a + (wrapIndex s - a + int k) mod max 1 (b - a)) [0..<n])"
  using assms
proof (induction n arbitrary: s)
  case 0
  then show ?case by simp
next
  case (Suc n)
  let ?d = "wrapIndex s"
  let ?len = "int (length (playbackContents s))"
  have d: "?d = loopWrap a b (currentPlaybackIndex s)"
    using Suc.prems by (simp add: wrapIndex_loop)
  have lo: "a \<le> ?d" and hi: "?d < max (a + 1) b"
    using loopWrap_range [OF \<open>a \<le> b\<close>] by (simp_all add: d)
  have inrange: "0 \<le> ?d" "?d < ?len"
    using lo hi Suc.prems by (auto simp: max_def split: if_splits)
  define s' where "s' = setTimeout (frameDelay (playbackSpeed s))
                  (s \<lparr> currentPlaybackIndex := ?d + 1,
                       progress := jsdiv ?d (length (playbackContents s)),
                       canvasImage := Some (playbackContents s ! nat ?d) \<rparr>)"
  have step: "playNextFrame s = Inr s'"
    unfolding s'_def using Suc.prems(1) inrange by (rule playNextFrame_reads)
  have idx: "currentPlaybackIndex s' = ?d + 1"
    by (simp add: s'_def setTimeout_def)
  have keep: "tickGuard s'" "abPointMode s'" "abPointA s' = Some a" "abPointB s' = Some b"
    "playbackContents s' = playbackContents s"
    using playNextFrame_keeps [OF step] playNextFrame_keeps_derived [OF step] Suc.prems
    by simp_all
  have next_d: "wrapIndex s' = (if ?d + 1 \<ge> b then a else ?d + 1)"
    using keep lo hi by (simp add: wrapIndex_loop idx loopWrap_next)
  have ih: "delivered n s'
              = Some (map (\<lambda>k. a + (wrapIndex s' - a + int k) mod max 1 (b - a)) [0..<n])"
    using keep Suc.prems by (intro Suc.IH) simp_all
  have shift: "map (\<lambda>k. a + (wrapIndex s' - a + int k) mod max 1 (b - a)) [0..<n]
                 = map (\<lambda>k. a + (?d - a + int (Suc k)) mod max 1 (b - a)) [0..<n]"
    unfolding next_d using cycle_shift [OF lo hi] by simp
  have split: "map (\<lambda>k. a + (?d - a + int k) mod max 1 (b - a)) [0..<Suc n]
                 = ?d # map (\<lambda>k. a + (?d - a + int (Suc k)) mod max 1 (b - a)) [0..<n]"
    using cycle_start [OF lo hi]
    by (simp only: upt_conv_Cons [of 0 "Suc n"] map_Suc_upt [symmetric] list.map map_map o_def)
  show ?case
    using Suc.prems(1) by (simp only: delivered.simps step sum.case ih shift split) simp
qed

text \<open>
  C2 (as the code has it). With an active loop from a to b, 0 \<le> a \<le> b, a inside the
  playback sequence and b at most its length, and playback running: the steps never
  throw, the k-th index read is a + ((d - a + k) mod max 1 (b - a)) where d is the first
  one, so the indices read stay within [a, b] and cycle a, a+1, ..., b-1, a, ...; the
  frame at b itself is read only when a = b. The step tests the cursor against b before
  it reads, so it goes back to a on reaching b; when a < b the cursor it leaves behind
  is within [a+1, b]. The loop and the guard are as before after the step, so all of
  this holds at every later step.
\<close>

theorem loop_cycles_below_B:
  assumes "tickGuard s" and "abPointMode s" and "abPointA s = Some a" and "abPointB s = Some b"
    and "0 \<le> a" and "a \<le> b" and "a < int (length (playbackContents s))"
    and "b \<le> int (length (playbackContents s))"
  shows "delivered n s
           = Some (map (\<lambda>k. a + (wrapIndex s - a + int k) mod max 1 (b - a)) [0..<n])
       \<and> (\<forall>k. a \<le> a + (wrapIndex s - a + int k) mod max 1 (b - a)
              \<and> a + (wrapIndex s - a + int k) mod max 1 (b - a) \<le> b
              \<and> (a < b \<longrightarrow> a + (wrapIndex s - a + int k) mod max 1 (b - a) < b))
       \<and> (\<exists>s'. playNextFrame s = Inr s'
              \<and> currentPlaybackIndex s' = wrapIndex s + 1
              \<and> (a < b \<longrightarrow> a < currentPlaybackIndex s' \<and> currentPlaybackIndex s' \<le> b)
              \<and> tickGuard s' \<and> abPointMode s' \<and> abPointA s' = Some a \<and> abPointB s' = Some b
              \<and> playbackContents s' = playbackContents s)"
proof -
  let ?d = "wrapIndex s"
  have d: "?d = loopWrap a b (currentPlaybackIndex s)"
    using assms by (simp add: wrapIndex_loop)
  have lo: "a \<le> ?d" and hi: "?d < max (a + 1) b"
    using loopWrap_range [OF \<open>a \<le> b\<close>] by (simp_all add: d)
  have inrange: "0 \<le> ?d" "?d < int (length (playbackContents s))"
    using lo hi assms by (auto simp: max_def split: if_splits)
  have bounds: "a \<le> a + (?d - a + int k) mod max 1 (b - a)
              \<and> a + (?d - a + int k) mod max 1 (b - a) \<le> b
              \<and> (a < b \<longrightarrow> a + (?d - a + int k) mod max 1 (b - a) < b)" for k
  proof -
    define m where "m = max 1 (b - a)"
    define r where "r = (?d - a + int k) mod m"
    have m: "0 < m" by (simp add: m_def)
    have "0 \<le> r" unfolding r_def using m by (rule pos_mod_sign)
    moreover have "r < m" unfolding r_def using m by (rule pos_mod_bound)
    moreover have "a + m \<le> b \<or> (a = b \<and> m = 1)"
      using \<open>a \<le> b\<close> by (auto simp: m_def max_def)
    ultimately have "a \<le> a + r \<and> a + r \<le> b \<and> (a < b \<longrightarrow> a + r < b)"
      by auto
    then show ?thesis by (simp add: r_def m_def)
  qed
  define s' where "s' = setTimeout (frameDelay (playbackSpeed s))
                  (s \<lparr> currentPlaybackIndex := ?d + 1,
                       progress := jsdiv ?d (length (playbackContents s)),
                       canvasImage := Some (playbackContents s ! nat ?d) \<rparr>)"
  have step: "playNextFrame s = Inr s'"
    unfolding s'_def using assms(1) inrange by (rule playNextFrame_reads)
  have idx: "currentPlaybackIndex s' = ?d + 1"
    by (simp add: s'_def setTimeout_def)
  have keep: "tickGuard s'" "abPointMode s'" "abPointA s' = Some a" "abPointB s' = Some b"
    "playbackContents s' = playbackContents s"
    using playNextFrame_keeps [OF step] playNextFrame_keeps_derived [OF step] assms
    by simp_all
  have cursor: "a < b \<longrightarrow> a < currentPlaybackIndex s' \<and> currentPlaybackIndex s' \<le> b"
    using lo hi by (auto simp: idx max_def split: if_splits)
  have "\<exists>s'. playNextFrame s = Inr s'
              \<and> currentPlaybackIndex s' = wrapIndex s + 1
              \<and> (a < b \<longrightarrow> a < currentPlaybackIndex s' \<and> currentPlaybackIndex s' \<le> b)
              \<and> tickGuard s' \<and> abPointMode s' \<and> abPointA s' = Some a \<and> abPointB s' = Some b
              \<and> playbackContents s' = playbackContents s"
    using step idx cursor keep by blast
  with delivered_loop [OF assms] bounds show ?thesis by blast
qed

theorem loop_cycles_below_B_witness:
  "delivered (Suc (Suc (Suc (Suc 0))))
     (mountedState \<lparr> recording := False, playing := True,
                     arrays := (\<lambda>_. [])(1 := [2, 3, 4, 5, 6 :: nat]),
                     abPointA := Some 1, abPointB := Some 3, abPointMode := True,
                     currentPlaybackIndex := 3 \<rparr>)
     = Some [1, 2, 1, 2]"
proof -
  let ?s = "mountedState \<lparr> recording := False, playing := True,
                     arrays := (\<lambda>_. [])(1 := [2, 3, 4, 5, 6 :: nat]),
                     abPointA := Some 1, abPointB := Some 3, abPointMode := True,
                     currentPlaybackIndex := 3 \<rparr>"
  have pre: "tickGuard ?s" "abPointMode ?s" "abPointA ?s = Some 1" "abPointB ?s = Some 3"
    "(0::int) \<le> 1" "(1::int) \<le> 3" "1 < int (length (playbackContents ?s))"
    "3 \<le> int (length (playbackContents ?s))"
    by (simp_all add: engine_defs)
  have w: "wrapIndex ?s = 1"
    by (simp add: engine_defs)
  from loop_cycles_below_B [OF pre, of "Suc (Suc (Suc (Suc 0)))"]
  have eq: "delivered (Suc (Suc (Suc (Suc 0)))) ?s
              = Some (map (\<lambda>k. 1 + (wrapIndex ?s - 1 + int k) mod max 1 (3 - 1))
                        [0..<Suc (Suc (Suc (Suc 0)))])"
    by (rule conjunct1)
  have "map (\<lambda>k. 1 + (wrapIndex ?s - 1 + int k) mod max 1 (3 - 1)) [0..<Suc (Suc (Suc (Suc 0)))]
          = [1, 2, 1, 2]"
    by (simp only: w) simp
  with eq show ?thesis by (simp only:)
qed

text \<open>
  C2 as stated says the indices read cycle 1, 2, 3 for a = 1, b = 3. In the replay
  session below the loop is set at cursor 1 and then at cursor 3; the next six steps
  read the indices 1, 2, 1, 2, 1, 2, never 3.
\<close>

theorem loop_skips_B:
  "map_sum id (\<lambda>s. (abPointA s, abPointB s, abPointMode s, currentPlaybackIndex s,
                      delivered (Suc (Suc (Suc (Suc (Suc (Suc 0)))))) s))
     (run [Command ToggleMode, Command ToggleLoopPoint, Timer 1, Timer 2, Command ToggleLoopPoint]
        recordedState)
   = Inr (Some 1, Some 3, True, 3, Some [1, 2, 1, 2, 1, 2])"
  by (simp add: engine_defs)

subsection \<open>Setting the loop points\<close>

lemma toggleABPoints_first_call:
  assumes "\<not> truthy (abPointA s)"
  shows "toggleABPoints s
           = s \<lparr> abPointA := Some (currentPlaybackIndex s), statusText := StatusSetA \<rparr>"
  using assms by (simp add: toggleABPoints_def)

lemma toggleABPoints_second_call:
  assumes "abPointA s = Some a" and "a \<noteq> 0" and "\<not> truthy (abPointB s)"
  shows "toggleABPoints s
           = s \<lparr> abPointB := Some (if a > currentPlaybackIndex s
                                    then int (length (playbackContents s)) - 1
                                    else currentPlaybackIndex s),
                 abPointMode := True, statusText := StatusABLoop \<rparr>"
  using assms by (simp add: toggleABPoints_def truthy_def)

lemma toggleABPoints_third_call:
  assumes "truthy (abPointA s)" and "truthy (abPointB s)"
  shows "toggleABPoints s
           = s \<lparr> abPointA := None, abPointB := None, abPointMode := False,
                 statusText := StatusRecalling \<rparr>"
  using assms by (simp add: toggleABPoints_def)

lemma toggleABPoints_cycle_nonzero:
  assumes "abPointA s = None" and "abPointB s = None" and "currentPlaybackIndex s = i"
    and "i \<noteq> 0"
  shows "abPointA (toggleABPoints s) = Some i \<and> abPointB (toggleABPoints s) = None
       \<and> abPointMode (toggleABPoints s) = abPointMode s
       \<and> abPointA (toggleABPoints (toggleABPoints s)) = Some i
       \<and> abPointB (toggleABPoints (toggleABPoints s)) = Some i
       \<and> abPointMode (toggleABPoints (toggleABPoints s))
       \<and> abPointA (toggleABPoints (toggleABPoints (toggleABPoints s))) = None
       \<and> abPointB (toggleABPoints (toggleABPoints (toggleABPoints s))) = None
       \<and> \<not> abPointMode (toggleABPoints (toggleABPoints (toggleABPoints s)))"
  using assms by (simp add: toggleABPoints_def truthy_def)

text \<open>
  C4. The three calls go none, A set, A and B set, none only when the cursor is not 0
  at the first call (\<open>toggleABPoints_cycle_nonzero\<close>). The handler tests
  \<^verbatim>\<open>!abPointA.value\<close>, and 0 is falsy: in the replay below the cursor is put at 0 by a
  seek while paused, the first call records A = 0, and the second call finds A unset
  again, so it records A once more and sets neither B nor the loop.
\<close>

theorem loop_point_A_at_zero:
  "map_sum id (\<lambda>s. (currentPlaybackIndex s, abPointA s, abPointB s, abPointMode s))
     (run [Command ToggleMode, Command TogglePause, Command (SeekToFraction (1 / 10)),
           Command ToggleLoopPoint] recordedState)
   = Inr (0, Some 0, None, False)
  \<and> map_sum id (\<lambda>s. (currentPlaybackIndex s, abPointA s, abPointB s, abPointMode s))
     (run [Command ToggleMode, Command TogglePause, Command (SeekToFraction (1 / 10)),
           Command ToggleLoopPoint, Command ToggleLoopPoint] recordedState)
   = Inr (0, Some 0, None, False)"
  by (simp add: engine_defs seek_tenth_of_five)

text \<open>
  C8. The second call sets B by the rule of the claim and activates the loop whenever
  A is not 0 (\<open>toggleABPoints_second_call\<close>). With A = 0 it does neither: below, A is
  set at cursor 0, playback resumes and reaches cursor 2, and the second call moves A
  to 2 where B = 2 and an active loop were due.
\<close>

theorem loop_point_B_after_A_at_zero:
  "map_sum id (\<lambda>s. (currentPlaybackIndex s, abPointA s, abPointB s, abPointMode s))
     (run [Command ToggleMode, Command TogglePause, Command (SeekToFraction (1 / 10)),
           Command ToggleLoopPoint, Command TogglePause, Timer 2] recordedState)
   = Inr (2, Some 0, None, False)
  \<and> map_sum id (\<lambda>s. (currentPlaybackIndex s, abPointA s, abPointB s, abPointMode s))
     (run [Command ToggleMode, Command TogglePause, Command (SeekToFraction (1 / 10)),
           Command ToggleLoopPoint, Command TogglePause, Timer 2, Command ToggleLoopPoint]
        recordedState)
   = Inr (2, Some 2, None, False)"
  by (simp add: engine_defs seek_tenth_of_five)

section \<open>Reading out of range\<close>

text \<open>
  Without an active loop a step wraps the cursor before it reads, so it reads inside a
  non-empty playback sequence, whatever the cursor was.
\<close>

lemma wrapIndex_plain:
  assumes "\<not> abPointMode s"
  shows "wrapIndex s = (if currentPlaybackIndex s \<ge> int (length (playbackContents s)) then 0
                        else currentPlaybackIndex s)"
  using assms by (simp add: wrapIndex_def)

lemma playNextFrame_plain:
  assumes "\<not> abPointMode s" and "playbackContents s \<noteq> []" and "0 \<le> currentPlaybackIndex s"
  shows "\<exists>s'. playNextFrame s = Inr s'
           \<and> (tickGuard s \<longrightarrow>
                  0 \<le> wrapIndex s \<and> wrapIndex s < int (length (playbackContents s))
                \<and> canvasImage s' = Some (playbackContents s ! nat (wrapIndex s))
                \<and> currentPlaybackIndex s' = wrapIndex s + 1)"
proof (cases "tickGuard s")
  case False
  then show ?thesis by (simp add: playNextFrame_blocked)
next
  case True
  have r: "0 \<le> wrapIndex s" "wrapIndex s < int (length (playbackContents s))"
    using assms by (simp_all add: wrapIndex_plain)
  show ?thesis
    using True r by (simp add: playNextFrame_reads [OF True r] setTimeout_def)
qed

text \<open>
  C5. The cursor the handlers store runs up to len, not below it (a step leaves it one
  past the frame it drew, a seek is not clamped), and the wrap at the head of the next
  step is what keeps the read in range. With a loop that wrap is replaced by the tests
  against B and A, and A can be recorded from a cursor at len: below, five frames are
  replayed to the end, the loop button is pressed twice, which sets A = B = 5 and
  activates the loop, and the next step sets the cursor to A = 5 and reads
  \<^verbatim>\<open>playbackFrames.value[5]\<close> of a sequence of five frames, so \<^verbatim>\<open>putImageData\<close>
  throws. With a single frame recorded the cursor is at len = 1 right after the replay
  starts, and the same two presses make the first timer throw.
\<close>

theorem loop_point_at_end_throws:
  "map_sum id (\<lambda>s. (length (playbackContents s), currentPlaybackIndex s,
                      abPointA s, abPointB s, abPointMode s))
     (run [Command ToggleMode, Timer 1, Timer 2, Timer 3, Timer 4, Command ToggleLoopPoint,
           Command ToggleLoopPoint] recordedState)
   = Inr (5, 5, Some 5, Some 5, True)
  \<and> run [Command ToggleMode, Timer 1, Timer 2, Timer 3, Timer 4, Command ToggleLoopPoint,
          Command ToggleLoopPoint, Timer 5] recordedState
      = Inl TypeError
  \<and> map_sum id (\<lambda>s. (length (playbackContents s), currentPlaybackIndex s,
                        abPointA s, abPointB s, abPointMode s))
     (run [Capture (Some 2), Command ToggleMode, Command ToggleLoopPoint,
           Command ToggleLoopPoint] (mountedState :: nat engine))
   = Inr (1, 1, Some 1, Some 1, True)
  \<and> run [Capture (Some 2), Command ToggleMode, Command ToggleLoopPoint,
          Command ToggleLoopPoint, Timer 1] (mountedState :: nat engine)
      = Inl TypeError"
  by (simp add: engine_defs)

section \<open>Commands\<close>

text \<open>
  C6. Three runs from the mounted component in which a command throws or changes the
  state although its precondition is unmet. (1) ToggleMode before any frame was
  captured leaves the component playing an empty sequence, and the seek that follows
  passes \<^verbatim>\<open>undefined\<close> to \<^verbatim>\<open>putImageData\<close>: \<^verbatim>\<open>playNextFrame\<close> has no guard for
  the empty sequence that \<^verbatim>\<open>startPlayback\<close> guards against. (2) With five frames
  replayed to the end, A set at cursor 5 and B snapped to 4, CycleSpeed runs a step
  that reads at index 5 and throws. (3) Back in recording after a replay, a touch move
  on the progress bar runs the seek, since \<^verbatim>\<open>handleTouchMove\<close> lacks the guard on
  \<^verbatim>\<open>playing\<close> that \<^verbatim>\<open>handleProgressClick\<close> has: the cursor goes from 1 to 2 and the
  progress shown from -1 to 2 / 5 while the mode is Recording.
\<close>

theorem commands_can_throw:
  "run [Command ToggleMode, Command (SeekToFraction (1 / 2))] (mountedState :: nat engine)
       = Inl TypeError
   \<and> run [Command ToggleMode, Timer 1, Timer 2, Timer 3, Timer 4, Command ToggleLoopPoint,
           Timer 5, Command ToggleLoopPoint, Command CycleSpeed] recordedState
       = Inl TypeError
   \<and> map_sum id (\<lambda>s. (recording s, currentPlaybackIndex s, progress s))
        (run [Command ToggleMode, Command ToggleMode, DragStart] recordedState)
       = Inr (True, 1, Some (- 1))
   \<and> map_sum id (\<lambda>s. (recording s, currentPlaybackIndex s, progress s))
        (run [Command ToggleMode, Command ToggleMode, DragStart, TouchMove (1 / 2)] recordedState)
       = Inr (True, 2, Some (2 / 5))"
  by (simp add: engine_defs roundDouble_zero seek_half_of_five)

end
